theory Spec2Isabelle
  imports Main
begin

section \<open>Data model\<close>

text \<open>
  The program \<^verbatim>\<open>fixJsonBible.mjs\<close> works on objects obtained from \<^verbatim>\<open>JSON.parse\<close> and
  mutates them in place. Objects are therefore modelled by their address in a store; an array
  of objects is a list of addresses.

  A verse object has the fields \<^verbatim>\<open>number\<close>, \<^verbatim>\<open>text\<close> and, optionally, \<^verbatim>\<open>endNumber\<close>.
  Verse numbers are integers (see the section on numbers). A text is a JavaScript string, that is a sequence of UTF-16
  code units, each given by its numeric value; \<open>None\<close> stands for an absent (or null) field.
\<close>

type_synonym addr = nat

type_synonym js_string = "nat list"

record verse =
  number :: int
  text_v :: "js_string option"
  endNumber :: "int option"

type_synonym verse_store = "addr \<Rightarrow> verse"

text \<open>
  An entry of the verse log, as pushed at lines 170-175 and 184-189:
  \<^verbatim>\<open>{ type, start, end, context }\<close>.
\<close>

record entry =
  type_e :: string
  start_e :: int
  end_e :: int
  context_e :: string

section \<open>Numbers\<close>

text \<open>
  A JavaScript number is a binary64 value. The numbers of the data model are integers, and an
  \<open>int\<close> stands for the binary64 value equal to it. On such values the comparisons of the
  program are the comparisons of integers, and \<^verbatim>\<open>x + 1\<close> and \<^verbatim>\<open>x - 1\<close> are the exact result
  rounded to the nearest binary64 value, a tie going to the even significand. That value is
  again an integer; it is the exact result up to magnitude \<open>2 ^ 53\<close>. Adding or subtracting 1
  never exceeds the largest binary64 value. An integer that no binary64 value equals is not a
  value of the program.

  \<open>spacing m\<close> is the distance between neighbouring binary64 values at magnitude \<open>m\<close>: the
  least power of two \<open>u\<close> with \<open>m < 2 ^ 53 * u\<close>.
\<close>

function ulp :: "nat \<Rightarrow> nat \<Rightarrow> nat" where
  "ulp u m = (if u = 0 \<or> m < 2 ^ 53 * u then u else ulp (2 * u) m)"
  by pat_completeness auto
termination
  by (relation "measure (\<lambda>(u, m). Suc m - 2 ^ 53 * u)") auto

definition spacing :: "nat \<Rightarrow> nat" where
  "spacing m = ulp 1 m"

definition round64 :: "int \<Rightarrow> int" where
  "round64 x =
     (let m = nat \<bar>x\<bar>; u = spacing m; q = m div u; r = m mod u;
          q' = (if 2 * r < u then q else if u < 2 * r then q + 1
                else if even q then q else q + 1)
      in sgn x * int (q' * u))"

definition js_add1 :: "int \<Rightarrow> int" where
  "js_add1 n = round64 (n + 1)"

definition js_sub1 :: "int \<Rightarrow> int" where
  "js_sub1 n = round64 (n - 1)"

text \<open>The safe integers (\<^verbatim>\<open>Number.isSafeInteger\<close>): on them both operations are exact.\<close>

definition safe :: "int \<Rightarrow> bool" where
  "safe n \<longleftrightarrow> \<bar>n\<bar> < 2 ^ 53"

section \<open>Empty verse text\<close>

text \<open>
  \<^verbatim>\<open>String.prototype.trim\<close> removes leading and trailing white space and line terminators:
  the code units U+0009 to U+000D, U+0020, U+00A0, U+1680, U+2000 to U+200A, U+2028, U+2029,
  U+202F, U+205F, U+3000 and U+FEFF.
\<close>

definition js_whitespace :: "nat \<Rightarrow> bool" where
  "js_whitespace c \<longleftrightarrow>
     (9 \<le> c \<and> c \<le> 13) \<or> c = 32 \<or> c = 160 \<or> c = 5760 \<or> (8192 \<le> c \<and> c \<le> 8202) \<or>
     c = 8232 \<or> c = 8233 \<or> c = 8239 \<or> c = 8287 \<or> c = 12288 \<or> c = 65279"

definition trim :: "js_string \<Rightarrow> js_string" where
  "trim s = rev (dropWhile js_whitespace (rev (dropWhile js_whitespace s)))"

text \<open>The test of line 179: \<^verbatim>\<open>!v.text || v.text.trim() === ""\<close>.\<close>

definition empty_text :: "verse \<Rightarrow> bool" where
  "empty_text v \<longleftrightarrow> (case text_v v of None \<Rightarrow> True | Some s \<Rightarrow> s = [] \<or> trim s = [])"

text \<open>A string literal as its code units (ASCII characters are their own code unit).\<close>

definition js :: "string \<Rightarrow> js_string" where
  "js s = map of_char s"

section \<open>processVerses\<close>

text \<open>
  The variables of \<^verbatim>\<open>processVerses\<close> (lines 157-160), together with the two pieces of state
  it shares with its caller: the store holding the verse objects, and the array \<^verbatim>\<open>verseLog\<close>
  it pushes to. \<^verbatim>\<open>lastVerse\<close> is a reference, \<open>None\<close> for \<^verbatim>\<open>null\<close>.
\<close>

record pv_state =
  heap :: verse_store
  result :: "addr list"
  lastVerse :: "addr option"
  expectedNumber :: "int option"
  fixed :: bool
  verseLog :: "entry list"

definition pv_init :: "verse_store \<Rightarrow> entry list \<Rightarrow> pv_state" where
  "pv_init h lg =
     \<lparr>heap = h, result = [], lastVerse = None, expectedNumber = None, fixed = False,
      verseLog = lg\<rparr>"

text \<open>
  Line 163: \<^verbatim>\<open>if (expectedNumber === null) expectedNumber = v.number\<close>; the value of
  \<^verbatim>\<open>expectedNumber\<close> that the rest of the iteration reads.
\<close>

definition expected :: "addr \<Rightarrow> pv_state \<Rightarrow> int" where
  "expected a s = (case expectedNumber s of None \<Rightarrow> number (heap s a) | Some e \<Rightarrow> e)"

text \<open>Lines 166-176, the gap check for the verse object at address \<open>a\<close>.\<close>

definition gap_check :: "string \<Rightarrow> addr \<Rightarrow> int \<Rightarrow> pv_state \<Rightarrow> pv_state" where
  "gap_check ctx a e s =
     (case lastVerse s of
        Some l \<Rightarrow>
          if e < number (heap s a)
          then s\<lparr>fixed := True,
                 heap := (heap s)(l := (heap s l)\<lparr>endNumber := Some (js_sub1 (number (heap s a)))\<rparr>),
                 verseLog := verseLog s @
                   [\<lparr>type_e = ''missing'', start_e = e, end_e = js_sub1 (number (heap s a)),
                     context_e = ctx\<rparr>]\<rparr>
          else s
      | None \<Rightarrow> s)"

text \<open>Lines 179-194, the empty-text check.\<close>

definition empty_check :: "string \<Rightarrow> addr \<Rightarrow> pv_state \<Rightarrow> pv_state" where
  "empty_check ctx a s =
     (if empty_text (heap s a)
      then (case lastVerse s of
              Some l \<Rightarrow>
                s\<lparr>fixed := True,
                  heap := (heap s)(l := (heap s l)\<lparr>endNumber := Some (number (heap s a))\<rparr>),
                  verseLog := verseLog s @
                    [\<lparr>type_e = ''empty'', start_e = number (heap s a),
                      end_e = number (heap s a), context_e = ctx\<rparr>]\<rparr>
            | None \<Rightarrow> s)
      else s\<lparr>result := result s @ [a], lastVerse := Some a\<rparr>)"

text \<open>One iteration of the loop of lines 162-197.\<close>

definition pv_step :: "string \<Rightarrow> addr \<Rightarrow> pv_state \<Rightarrow> pv_state" where
  "pv_step ctx a s =
     (let s1 = gap_check ctx a (expected a s) s;
          s2 = empty_check ctx a s1
      in s2\<lparr>expectedNumber := Some (js_add1 (number (heap s2 a)))\<rparr>)"

fun pv_loop :: "string \<Rightarrow> addr list \<Rightarrow> pv_state \<Rightarrow> pv_state" where
  "pv_loop ctx [] s = s"
| "pv_loop ctx (a # as) s = pv_loop ctx as (pv_step ctx a s)"

text \<open>
  What a call leaves behind: the returned object \<^verbatim>\<open>{ verses: result, fixed }\<close>, the store
  and the log.
\<close>

record pv_return =
  verses_r :: "addr list"
  fixed_r :: bool
  heap_r :: verse_store
  log_r :: "entry list"

definition processVerses :: "verse_store \<Rightarrow> addr list \<Rightarrow> string \<Rightarrow> entry list \<Rightarrow> pv_return" where
  "processVerses h verses ctx lg =
     (let s = pv_loop ctx verses (pv_init h lg)
      in \<lparr>verses_r = result s, fixed_r = fixed s, heap_r = heap s, log_r = verseLog s\<rparr>)"

text \<open>
  The assignments \<^verbatim>\<open>lastVerse.endNumber = ...\<close> that one iteration executes (lines 168 and
  182), in program order: the object assigned to and the value assigned. \<^verbatim>\<open>lastVerse\<close> is not
  reassigned between the two.
\<close>

definition merges :: "addr \<Rightarrow> pv_state \<Rightarrow> (addr \<times> int) list" where
  "merges a s =
     (case lastVerse s of
        None \<Rightarrow> []
      | Some l \<Rightarrow>
          (if expected a s < number (heap s a) then [(l, js_sub1 (number (heap s a)))] else []) @
          (if empty_text (heap s a) then [(l, number (heap s a))] else []))"

fun merge_trace :: "string \<Rightarrow> addr list \<Rightarrow> pv_state \<Rightarrow> (addr \<times> int) list" where
  "merge_trace ctx [] s = []"
| "merge_trace ctx (a # as) s = merges a s @ merge_trace ctx as (pv_step ctx a s)"

definition assign_endNumber :: "verse_store \<Rightarrow> addr \<times> int \<Rightarrow> verse_store" where
  "assign_endNumber h w = h(fst w := (h (fst w))\<lparr>endNumber := Some (snd w)\<rparr>)"

section \<open>logGroupedErrors\<close>

text \<open>
  The grouping loop copies entries (\<^verbatim>\<open>{ ...entry }\<close>, line 211) and assigns to a field of a copy
  (line 209). Entry objects live in a store in which allocation takes the next free address:
  the store is the list of the objects allocated so far, and an address is an index into it.
  \<^verbatim>\<open>verseLog\<close> and \<^verbatim>\<open>grouped\<close> are arrays of addresses.
\<close>

type_synonym entry_store = "entry list"

record group_state =
  store :: entry_store
  grouped :: "addr list"

text \<open>The condition of line 208 on an existing \<^verbatim>\<open>last\<close>.\<close>

definition mergeable :: "entry \<Rightarrow> entry \<Rightarrow> bool" where
  "mergeable lst e \<longleftrightarrow>
     type_e lst = type_e e \<and> context_e lst = context_e e \<and> js_add1 (end_e lst) = start_e e"

text \<open>
  Lines 207-212. \<^verbatim>\<open>grouped[grouped.length - 1]\<close> is \<^verbatim>\<open>undefined\<close>, hence falsy, while
  \<^verbatim>\<open>grouped\<close> is empty.
\<close>

definition group_step :: "addr \<Rightarrow> group_state \<Rightarrow> group_state" where
  "group_step a s =
     (let e = store s ! a in
      if grouped s \<noteq> [] \<and> mergeable (store s ! last (grouped s)) e
      then s\<lparr>store := (store s)[last (grouped s) :=
                 (store s ! last (grouped s))\<lparr>end_e := end_e e\<rparr>]\<rparr>
      else s\<lparr>store := store s @ [e], grouped := grouped s @ [length (store s)]\<rparr>)"

fun group_loop :: "addr list \<Rightarrow> group_state \<Rightarrow> group_state" where
  "group_loop [] s = s"
| "group_loop (a # as) s = group_loop as (group_step a s)"

text \<open>
  The first loop of \<^verbatim>\<open>logGroupedErrors\<close> (lines 203-213). The second loop (lines 216-220)
  only reads \<^verbatim>\<open>grouped\<close> to print it.
\<close>

definition logGroupedErrors :: "entry_store \<Rightarrow> addr list \<Rightarrow> group_state" where
  "logGroupedErrors h lg = group_loop lg \<lparr>store = h, grouped = []\<rparr>"

text \<open>The entries that an array of addresses holds.\<close>

definition entries :: "entry_store \<Rightarrow> addr list \<Rightarrow> entry list" where
  "entries h as = map (\<lambda>a. h ! a) as"

text \<open>The same loop body on entry values, \<open>g\<close> being the entries of \<^verbatim>\<open>grouped\<close>.\<close>

definition group_val :: "entry list \<Rightarrow> entry \<Rightarrow> entry list" where
  "group_val g e =
     (if g \<noteq> [] \<and> mergeable (last g) e
      then butlast g @ [(last g)\<lparr>end_e := end_e e\<rparr>]
      else g @ [e])"

section \<open>Reading and writing a Bible file\<close>

text \<open>
  A parsed JSON document. What the numbers and the objects of a document are plays no role
  in reading and writing, and both are type parameters; for the main loop the objects are
  Bible objects (below).
\<close>

datatype ('n, 'd) json =
  JNull
| JBoolean bool
| JNumber 'n
| JString string
| JArray "('n, 'd) json list"
| JObject 'd

fun typeof :: "('n, 'd) json \<Rightarrow> string" where
  "typeof JNull = ''object''"
| "typeof (JBoolean b) = ''boolean''"
| "typeof (JNumber n) = ''number''"
| "typeof (JString s) = ''string''"
| "typeof (JArray xs) = ''object''"
| "typeof (JObject d) = ''object''"

fun isArray :: "('n, 'd) json \<Rightarrow> bool" where
  "isArray (JArray xs) = True"
| "isArray j = False"

datatype read_error = ReadFailed | InvalidJSONSyntax | UnknownStructure

record ('n, 'd) bible_wrapper =
  type_w :: string
  id_w :: "('n, 'd) json"
  data_w :: "('n, 'd) json"

text \<open>
  The two directories of lines 14-15, and the files in them: a file is named by its
  directory and its name, and the file system gives its content.
\<close>

datatype dir = Converted | Fixed

type_synonym file_system = "dir \<times> string \<rightharpoonup> string"

text \<open>Lines 119-123.\<close>

definition isFsbStructure :: "('n, 'd) json \<Rightarrow> bool" where
  "isFsbStructure raw =
     (case raw of
        JArray xs \<Rightarrow>
          length xs = 2 \<and> typeof (xs ! 0) = ''string'' \<and> typeof (xs ! 1) = ''object'' \<and>
          xs ! 1 \<noteq> JNull
      | _ \<Rightarrow> False)"

text \<open>
  \<^verbatim>\<open>readBibleFile\<close> (lines 109-132). \<^verbatim>\<open>JSON.parse\<close> is a parameter, \<open>None\<close> being a syntax
  error.
\<close>

definition readBibleFile ::
  "file_system \<Rightarrow> (string \<Rightarrow> ('n, 'd) json option) \<Rightarrow> dir \<times> string \<Rightarrow>
   read_error + ('n, 'd) bible_wrapper"
where
  "readBibleFile fs parse filePath =
     (case fs filePath of
        None \<Rightarrow> Inl ReadFailed
      | Some content \<Rightarrow>
          (case parse content of
             None \<Rightarrow> Inl InvalidJSONSyntax
           | Some raw \<Rightarrow>
               if isFsbStructure raw
               then (case raw of
                       JArray xs \<Rightarrow> Inr \<lparr>type_w = ''fsb'', id_w = xs ! 0, data_w = xs ! 1\<rparr>
                     | _ \<Rightarrow> Inl UnknownStructure)
               else if typeof raw = ''object'' \<and> raw \<noteq> JNull \<and> \<not> isArray raw
               then Inr \<lparr>type_w = ''json'', id_w = JNull, data_w = raw\<rparr>
               else Inl UnknownStructure))"

text \<open>
  \<^verbatim>\<open>writeBibleFile\<close> (lines 138-152): the value handed to \<^verbatim>\<open>JSON.stringify\<close>, and the file
  system after the write; \<^verbatim>\<open>JSON.stringify\<close> is a parameter.
\<close>

definition outputData :: "('n, 'd) bible_wrapper \<Rightarrow> ('n, 'd) json" where
  "outputData w = (if type_w w = ''fsb'' then JArray [id_w w, data_w w] else data_w w)"

definition writeBibleFile ::
  "(('n, 'd) json \<Rightarrow> string) \<Rightarrow> file_system \<Rightarrow> dir \<times> string \<Rightarrow> ('n, 'd) bible_wrapper \<Rightarrow>
   file_system"
where
  "writeBibleFile stringify fs filePath w = fs(filePath \<mapsto> stringify (outputData w))"

section \<open>The main loop\<close>

text \<open>
  The objects of a Bible document, with the fields that the program reads: a Bible has
  \<^verbatim>\<open>books\<close>, a book \<^verbatim>\<open>name\<close> and \<^verbatim>\<open>chapters\<close>, a chapter \<^verbatim>\<open>number\<close> and \<^verbatim>\<open>verses\<close>. An
  array field is \<open>None\<close> when it is absent, where the program takes \<^verbatim>\<open>[]\<close> instead
  (\<^verbatim>\<open>bible.books || []\<close>). A parsed document is a tree: no object occurs in it twice.
\<close>

record bible_chapter =
  number_c :: int
  verses_c :: "verse list option"

record bible_book =
  name_b :: string
  chapters_b :: "bible_chapter list option"

record bible =
  books :: "bible_book list option"

definition or_empty :: "'a list option \<Rightarrow> 'a list" where
  "or_empty xs = (case xs of None \<Rightarrow> [] | Some ys \<Rightarrow> ys)"

text \<open>
  Lines 254-260 for one chapter. The verse objects of the chapter are put in a store, at the
  addresses 0, 1, 2, ... in the order of the array; after the call they are read back from
  the store it leaves: those of the result if \<^verbatim>\<open>chapter.verses\<close> is assigned, those of the
  array the chapter had otherwise. The number in the context is converted to a string by
  JavaScript, a parameter here. Returned with the chapter are \<^verbatim>\<open>result.fixed\<close> and the log.
\<close>

definition store_of :: "verse list \<Rightarrow> verse_store" where
  "store_of vs a =
     (if a < length vs then vs ! a else \<lparr>number = 0, text_v = None, endNumber = None\<rparr>)"

definition process_chapter ::
  "(int \<Rightarrow> string) \<Rightarrow> string \<Rightarrow> bible_chapter \<Rightarrow> entry list \<Rightarrow> bible_chapter \<times> bool \<times> entry list"
where
  "process_chapter num_str name c fileLog =
     (let vs = or_empty (verses_c c);
          context = name @ '' '' @ num_str (number_c c);
          r = processVerses (store_of vs) [0..<length vs] context fileLog
      in (if fixed_r r
          then c\<lparr>verses_c := Some (map (heap_r r) (verses_r r))\<rparr>
          else c\<lparr>verses_c := map_option (\<lambda>_. map (heap_r r) [0..<length vs]) (verses_c c)\<rparr>,
          fixed_r r, log_r r))"

text \<open>
  The loop of line 253 over the chapters of a book, and the loop of line 252 over the books;
  \<open>m\<close> is \<^verbatim>\<open>bibleWasModified\<close>.
\<close>

fun process_chapters ::
  "(int \<Rightarrow> string) \<Rightarrow> string \<Rightarrow> bible_chapter list \<Rightarrow> bool \<Rightarrow> entry list \<Rightarrow>
   bible_chapter list \<times> bool \<times> entry list"
where
  "process_chapters num_str name [] m fileLog = ([], m, fileLog)"
| "process_chapters num_str name (c # cs) m fileLog =
     (case process_chapter num_str name c fileLog of
        (c', f, fileLog') \<Rightarrow>
          (case process_chapters num_str name cs (m \<or> f) fileLog' of
             (cs', m', fileLog'') \<Rightarrow> (c' # cs', m', fileLog'')))"

definition process_book ::
  "(int \<Rightarrow> string) \<Rightarrow> bible_book \<Rightarrow> bool \<Rightarrow> entry list \<Rightarrow> bible_book \<times> bool \<times> entry list"
where
  "process_book num_str b m fileLog =
     (case process_chapters num_str (name_b b) (or_empty (chapters_b b)) m fileLog of
        (cs', m', fileLog') \<Rightarrow>
          (b\<lparr>chapters_b := map_option (\<lambda>_. cs') (chapters_b b)\<rparr>, m', fileLog'))"

fun process_books ::
  "(int \<Rightarrow> string) \<Rightarrow> bible_book list \<Rightarrow> bool \<Rightarrow> entry list \<Rightarrow> bible_book list \<times> bool \<times> entry list"
where
  "process_books num_str [] m fileLog = ([], m, fileLog)"
| "process_books num_str (b # bs) m fileLog =
     (case process_book num_str b m fileLog of
        (b', m', fileLog') \<Rightarrow>
          (case process_books num_str bs m' fileLog' of
             (bs', m'', fileLog'') \<Rightarrow> (b' # bs', m'', fileLog'')))"

text \<open>
  Lines 248-262 on \<^verbatim>\<open>bibleWrapper.data\<close>, which \<^verbatim>\<open>readBibleFile\<close> leaves an object or an array;
  an array has no \<^verbatim>\<open>books\<close>. Returned are the data after the loops, \<^verbatim>\<open>bibleWasModified\<close> and
  \<^verbatim>\<open>fileLog\<close>.
\<close>

definition process_data ::
  "(int \<Rightarrow> string) \<Rightarrow> ('n, bible) json \<Rightarrow> ('n, bible) json \<times> bool \<times> entry list"
where
  "process_data num_str d =
     (case d of
        JObject b \<Rightarrow>
          (case process_books num_str (or_empty (books b)) False [] of
             (bs', m, fileLog) \<Rightarrow>
               (JObject (b\<lparr>books := map_option (\<lambda>_. bs') (books b)\<rparr>), m, fileLog))
      | _ \<Rightarrow> (d, False, []))"

text \<open>
  The body of the main loop (lines 234-279) for one file, on the file system and the two
  counters; \<^verbatim>\<open>logMessage\<close> and \<^verbatim>\<open>logGroupedErrors\<close> only print. The wrapper that is written is
  the one that was read: nothing but its data is assigned to in between.
\<close>

record run_state =
  files :: file_system
  fixedCount :: nat
  invalidCount :: nat

definition fix_file ::
  "(string \<Rightarrow> ('n, bible) json option) \<Rightarrow> (('n, bible) json \<Rightarrow> string) \<Rightarrow> (int \<Rightarrow> string) \<Rightarrow>
   bool \<Rightarrow> string \<Rightarrow> run_state \<Rightarrow> run_state"
where
  "fix_file parse stringify num_str dry_run file st =
     (case readBibleFile (files st) parse (Converted, file) of
        Inl err \<Rightarrow> st\<lparr>invalidCount := invalidCount st + 1\<rparr>
      | Inr bibleWrapper \<Rightarrow>
          (case process_data num_str (data_w bibleWrapper) of
             (bible, bibleWasModified, fileLog) \<Rightarrow>
               if bibleWasModified
               then st\<lparr>fixedCount := fixedCount st + 1,
                       files :=
                         (if dry_run then files st
                          else writeBibleFile stringify (files st) (Fixed, ''fixed_'' @ file)
                                 (bibleWrapper\<lparr>data_w := bible\<rparr>))\<rparr>
               else st))"

fun fix_files ::
  "(string \<Rightarrow> ('n, bible) json option) \<Rightarrow> (('n, bible) json \<Rightarrow> string) \<Rightarrow> (int \<Rightarrow> string) \<Rightarrow>
   bool \<Rightarrow> string list \<Rightarrow> run_state \<Rightarrow> run_state"
where
  "fix_files parse stringify num_str dry_run [] st = st"
| "fix_files parse stringify num_str dry_run (file # inputFiles) st =
     fix_files parse stringify num_str dry_run inputFiles
       (fix_file parse stringify num_str dry_run file st)"

section \<open>Example chapters\<close>

text \<open>The verse object \<^verbatim>\<open>{ number: n, text: t }\<close>.\<close>

definition verse_of :: "int \<Rightarrow> string \<Rightarrow> verse" where
  "verse_of n t = \<lparr>number = n, text_v = Some (js t), endNumber = None\<rparr>"

definition chapter_A :: verse_store where
  "chapter_A =
     store_of [verse_of 1 ''In the beginning'', verse_of 2 '''', verse_of 3 ''And the earth'']"

definition chapter_B :: verse_store where
  "chapter_B = store_of [verse_of 1 ''A'', verse_of 2 ''B'', verse_of 5 ''C'']"

definition chapter_lead :: verse_store where
  "chapter_lead = store_of [verse_of 4 '' '', verse_of 5 ''B'']"

definition chapter_back :: verse_store where
  "chapter_back = store_of [verse_of 1 ''A'', verse_of 3 '''', verse_of 2 '''']"

definition chapter_both :: verse_store where
  "chapter_both = store_of [verse_of 1 ''A'', verse_of 4 '''']"

text \<open>Verse numbers \<open>2 ^ 53\<close> and \<open>2 ^ 53 + 2\<close>, the last verse empty or not.\<close>

definition chapter_big :: verse_store where
  "chapter_big =
     store_of [verse_of 1 ''A'', verse_of 9007199254740992 '''', verse_of 9007199254740994 '''']"


definition log_C :: entry_store where
  "log_C =
     [\<lparr>type_e = ''empty'', start_e = 5, end_e = 5, context_e = ''Genesis 1''\<rparr>,
      \<lparr>type_e = ''empty'', start_e = 6, end_e = 6, context_e = ''Genesis 1''\<rparr>,
      \<lparr>type_e = ''missing'', start_e = 7, end_e = 8, context_e = ''Genesis 1''\<rparr>]"

text \<open>
  A Bible with the one chapter of Scenario A, and stand-ins for \<^verbatim>\<open>JSON.parse\<close> on two file
  contents, for \<^verbatim>\<open>JSON.stringify\<close> and for the conversion of a chapter number.
\<close>

definition demo_bible :: bible where
  "demo_bible =
     \<lparr>books = Some
        [\<lparr>name_b = ''Genesis'',
          chapters_b = Some
            [\<lparr>number_c = 1,
              verses_c = Some
                [verse_of 1 ''In the beginning'', verse_of 2 '''',
                 verse_of 3 ''And the earth'']\<rparr>]\<rparr>]\<rparr>"

definition demo_fixed :: bible where
  "demo_fixed =
     \<lparr>books = Some
        [\<lparr>name_b = ''Genesis'',
          chapters_b = Some
            [\<lparr>number_c = 1,
              verses_c = Some
                [(verse_of 1 ''In the beginning'')\<lparr>endNumber := Some 2\<rparr>,
                 verse_of 3 ''And the earth'']\<rparr>]\<rparr>]\<rparr>"

definition demo_parse :: "string \<Rightarrow> (int, bible) json option" where
  "demo_parse content =
     (if content = ''fsb text'' then Some (JArray [JString ''KJV'', JObject demo_bible])
      else if content = ''json text'' then Some (JObject demo_bible)
      else None)"

definition demo_stringify :: "(int, bible) json \<Rightarrow> string" where
  "demo_stringify j = (if isArray j then ''array'' else ''other'')"

definition demo_num_str :: "int \<Rightarrow> string" where
  "demo_num_str n = (if n = 1 then ''1'' else ''n'')"

definition demo_state :: run_state where
  "demo_state =
     \<lparr>files = [(Converted, ''a.fsb'') \<mapsto> ''fsb text'', (Converted, ''b.json'') \<mapsto> ''json text''],
      fixedCount = 0, invalidCount = 0\<rparr>"


section \<open>Rounding\<close>

lemma spacing_small: "m < 2 ^ 53 \<Longrightarrow> spacing m = 1"
  by (simp add: spacing_def ulp.simps [of "Suc 0" m])

lemma spacing_binade: "2 ^ 53 \<le> m \<Longrightarrow> m < 2 ^ 54 \<Longrightarrow> spacing m = 2"
  by (simp add: spacing_def ulp.simps [of "Suc 0" m] ulp.simps [of 2 m])

lemma round64_exact:
  assumes "\<bar>x\<bar> \<le> 2 ^ 53"
  shows "round64 x = x"
proof (cases "\<bar>x\<bar> < 2 ^ 53")
  case True
  then have "nat \<bar>x\<bar> < 2 ^ 53" by simp
  then show ?thesis
    by (simp add: round64_def spacing_small Let_def) (simp add: sgn_if abs_if)
next
  case False
  with assms have m: "nat \<bar>x\<bar> = 2 ^ 53" and x: "x = 2 ^ 53 \<or> x = - (2 ^ 53)"
    by auto
  from m have "round64 x = sgn x * 2 ^ 53"
    by (simp add: round64_def spacing_binade Let_def)
  with x show ?thesis
    by auto
qed

lemma js_add1_safe: "safe n \<Longrightarrow> js_add1 n = n + 1"
  by (simp add: js_add1_def safe_def round64_exact)

lemma js_sub1_safe: "safe n \<Longrightarrow> js_sub1 n = n - 1"
  by (simp add: js_sub1_def safe_def round64_exact)

lemma js_sub1_less: "safe n \<Longrightarrow> js_sub1 n < n"
  by (simp add: js_sub1_safe)

text \<open>Beyond \<open>2 ^ 53\<close> the odd integers are not binary64 values.\<close>

lemma js_add1_big:
  "js_add1 9007199254740992 = 9007199254740992"
  "js_add1 9007199254740994 = 9007199254740996"
  by (simp_all add: js_add1_def round64_def spacing_binade Let_def)

lemma js_sub1_big:
  "js_sub1 9007199254740992 = 9007199254740991"
  "js_sub1 9007199254740994 = 9007199254740992"
  by (simp_all add: js_sub1_def round64_def spacing_binade spacing_small Let_def)

section \<open>One iteration of processVerses\<close>

text \<open>
  No iteration assigns to \<^verbatim>\<open>number\<close> or \<^verbatim>\<open>text\<close>: whether a verse is empty does not depend
  on when it is looked at.
\<close>

lemma empty_text_cong: "text_v v = text_v w \<Longrightarrow> empty_text v = empty_text w"
  by (simp add: empty_text_def)

lemma empty_text_endNumber: "empty_text (v\<lparr>endNumber := x\<rparr>) = empty_text v"
  by (simp add: empty_text_def)

lemma number_gap_check: "number (heap (gap_check ctx a e s) b) = number (heap s b)"
  by (simp add: gap_check_def split: option.split)

lemma text_gap_check: "text_v (heap (gap_check ctx a e s) b) = text_v (heap s b)"
  by (simp add: gap_check_def split: option.split)

lemma number_empty_check: "number (heap (empty_check ctx a s) b) = number (heap s b)"
  by (simp add: empty_check_def split: option.split)

lemma text_empty_check: "text_v (heap (empty_check ctx a s) b) = text_v (heap s b)"
  by (simp add: empty_check_def split: option.split)

lemma number_pv_step: "number (heap (pv_step ctx a s) b) = number (heap s b)"
  by (simp add: pv_step_def Let_def number_empty_check number_gap_check)

lemma text_pv_step: "text_v (heap (pv_step ctx a s) b) = text_v (heap s b)"
  by (simp add: pv_step_def Let_def text_empty_check text_gap_check)


lemma text_pv_loop: "text_v (heap (pv_loop ctx as s) b) = text_v (heap s b)"
  by (induction as arbitrary: s) (simp_all add: text_pv_step)

lemma empty_text_gap_check: "empty_text (heap (gap_check ctx a e s) b) = empty_text (heap s b)"
  by (rule empty_text_cong) (rule text_gap_check)

lemma empty_text_pv_step: "empty_text (heap (pv_step ctx a s) b) = empty_text (heap s b)"
  by (rule empty_text_cong) (rule text_pv_step)

lemma empty_text_pv_loop: "empty_text (heap (pv_loop ctx as s) b) = empty_text (heap s b)"
  by (rule empty_text_cong) (rule text_pv_loop)

text \<open>What an iteration does to each variable.\<close>

lemma result_gap_check: "result (gap_check ctx a e s) = result s"
  by (simp add: gap_check_def split: option.split)

lemma lastVerse_gap_check: "lastVerse (gap_check ctx a e s) = lastVerse s"
  by (simp add: gap_check_def split: option.split)

lemma result_pv_step:
  "result (pv_step ctx a s) = (if empty_text (heap s a) then result s else result s @ [a])"
  by (simp add: pv_step_def Let_def empty_check_def empty_text_gap_check result_gap_check
      split: option.split)

lemma lastVerse_pv_step:
  "lastVerse (pv_step ctx a s) = (if empty_text (heap s a) then lastVerse s else Some a)"
  by (simp add: pv_step_def Let_def empty_check_def empty_text_gap_check lastVerse_gap_check
      split: option.split)

lemma expectedNumber_pv_step: "expectedNumber (pv_step ctx a s) = Some (js_add1 (number (heap s a)))"
  by (simp add: pv_step_def Let_def number_empty_check number_gap_check)

lemma verseLog_pv_step:
  "verseLog (pv_step ctx a s) =
     verseLog s @
     (case lastVerse s of
        None \<Rightarrow> []
      | Some l \<Rightarrow>
          (if expected a s < number (heap s a)
           then [\<lparr>type_e = ''missing'', start_e = expected a s, end_e = js_sub1 (number (heap s a)),
                  context_e = ctx\<rparr>]
           else []) @
          (if empty_text (heap s a)
           then [\<lparr>type_e = ''empty'', start_e = number (heap s a), end_e = number (heap s a),
                  context_e = ctx\<rparr>]
           else []))"
  by (simp add: pv_step_def Let_def empty_check_def gap_check_def empty_text_endNumber
      split: option.split)

lemma fixed_pv_step:
  "fixed (pv_step ctx a s) \<longleftrightarrow>
     fixed s \<or> lastVerse s \<noteq> None \<and> (expected a s < number (heap s a) \<or> empty_text (heap s a))"
  by (auto simp add: pv_step_def Let_def empty_check_def gap_check_def split: option.split)


lemma empty_check_eq:
  assumes "lastVerse s = Some l" and "empty_text (heap s a)"
  shows "empty_check ctx a s =
     s\<lparr>fixed := True,
       heap := (heap s)(l := (heap s l)\<lparr>endNumber := Some (number (heap s a))\<rparr>),
       verseLog := verseLog s @
         [\<lparr>type_e = ''empty'', start_e = number (heap s a), end_e = number (heap s a),
           context_e = ctx\<rparr>]\<rparr>"
  using assms by (simp add: empty_check_def)

lemma result_pv_loop:
  "result (pv_loop ctx as s) = result s @ filter (\<lambda>a. \<not> empty_text (heap s a)) as"
  by (induction as arbitrary: s) (simp_all add: result_pv_step empty_text_pv_step)

lemma verses_processVerses:
  "verses_r (processVerses h vs ctx lg) = filter (\<lambda>a. \<not> empty_text (h a)) vs"
  by (simp add: processVerses_def Let_def result_pv_loop pv_init_def)

lemma empty_text_processVerses:
  "empty_text (heap_r (processVerses h vs ctx lg) a) = empty_text (h a)"
  by (simp add: processVerses_def Let_def empty_text_pv_loop pv_init_def)

lemma verseLog_pv_loop_grows: "\<exists>ys. verseLog (pv_loop ctx as s) = verseLog s @ ys"
proof (induction as arbitrary: s)
  case Nil
  show ?case by simp
next
  case (Cons a as)
  obtain ys where "verseLog (pv_loop ctx as (pv_step ctx a s)) = verseLog (pv_step ctx a s) @ ys"
    using Cons.IH by blast
  then show ?case
    by (simp add: verseLog_pv_step)
qed





text \<open>
  The store after an iteration, and after the loop, is the store before with the recorded
  assignments carried out in order.
\<close>

lemma heap_pv_step: "heap (pv_step ctx a s) = foldl assign_endNumber (heap s) (merges a s)"
  by (simp add: pv_step_def Let_def empty_check_def gap_check_def merges_def assign_endNumber_def
      empty_text_endNumber split: option.split)

lemma heap_pv_loop: "heap (pv_loop ctx as s) = foldl assign_endNumber (heap s) (merge_trace ctx as s)"
  by (induction as arbitrary: s) (simp_all add: heap_pv_step)

lemma endNumber_pv_step:
  assumes "lastVerse s = Some l"
  shows "endNumber (heap (pv_step ctx a s) l) =
     (if empty_text (heap s a) then Some (number (heap s a))
      else if expected a s < number (heap s a) then Some (js_sub1 (number (heap s a)))
      else endNumber (heap s l))"
  using assms by (simp add: heap_pv_step merges_def assign_endNumber_def)

lemma pv_step_no_lastVerse:
  assumes "lastVerse s = None"
  shows "verseLog (pv_step ctx a s) = verseLog s" and "fixed (pv_step ctx a s) = fixed s"
    and "heap (pv_step ctx a s) = heap s"
  using assms by (simp_all add: verseLog_pv_step fixed_pv_step heap_pv_step merges_def)

lemma pv_step_leading_empty:
  assumes "lastVerse s = None" and "empty_text (heap s a)"
  shows "pv_step ctx a s = s\<lparr>expectedNumber := Some (js_add1 (number (heap s a)))\<rparr>"
  using assms by (simp add: pv_step_def gap_check_def empty_check_def Let_def)

lemma pv_step_expectedNumber_irrelevant:
  assumes "lastVerse s = None"
  shows "pv_step ctx a (s\<lparr>expectedNumber := e\<rparr>) = pv_step ctx a s"
  using assms by (simp add: pv_step_def gap_check_def empty_check_def Let_def)

section \<open>The example chapters, run\<close>

lemma empty_text_verse_of:
  "empty_text (verse_of n '''')" "empty_text (verse_of n '' '')"
  "\<not> empty_text (verse_of n ''A'')" "\<not> empty_text (verse_of n ''B'')"
  "\<not> empty_text (verse_of n ''C'')" "\<not> empty_text (verse_of n ''In the beginning'')"
  "\<not> empty_text (verse_of n ''And the earth'')"
  by (simp_all add: empty_text_def verse_of_def js_def trim_def js_whitespace_def)

lemma number_verse_of: "number (verse_of n t) = n"
  by (simp add: verse_of_def)

lemma chapter_A_at:
  "chapter_A 0 = verse_of 1 ''In the beginning''" "chapter_A (Suc 0) = verse_of 2 ''''"
  "chapter_A 2 = verse_of 3 ''And the earth''"
  by (simp_all add: chapter_A_def store_of_def)

lemma chapter_B_at:
  "chapter_B 0 = verse_of 1 ''A''" "chapter_B (Suc 0) = verse_of 2 ''B''"
  "chapter_B 2 = verse_of 5 ''C''"
  by (simp_all add: chapter_B_def store_of_def)

lemma chapter_lead_at:
  "chapter_lead 0 = verse_of 4 '' ''" "chapter_lead (Suc 0) = verse_of 5 ''B''"
  by (simp_all add: chapter_lead_def store_of_def)

lemma chapter_back_at:
  "chapter_back 0 = verse_of 1 ''A''" "chapter_back (Suc 0) = verse_of 3 ''''"
  "chapter_back 2 = verse_of 2 ''''"
  by (simp_all add: chapter_back_def store_of_def)

lemma chapter_both_at:
  "chapter_both 0 = verse_of 1 ''A''" "chapter_both (Suc 0) = verse_of 4 ''''"
  by (simp_all add: chapter_both_def store_of_def)

lemmas pv_unfold = processVerses_def pv_init_def pv_step_def gap_check_def empty_check_def
  expected_def Let_def empty_text_verse_of number_verse_of empty_text_endNumber
  js_add1_safe js_sub1_safe safe_def

lemma step_A:
  "pv_step ctx 0 (pv_init chapter_A lg) =
     \<lparr>heap = chapter_A, result = [0], lastVerse = Some 0, expectedNumber = Some 2,
      fixed = False, verseLog = lg\<rparr>"
  by (simp add: pv_unfold chapter_A_at)

lemma run_A:
  "processVerses chapter_A [0, 1, 2] ctx lg =
     \<lparr>verses_r = [0, 2], fixed_r = True,
      heap_r = chapter_A(0 := (verse_of 1 ''In the beginning'')\<lparr>endNumber := Some 2\<rparr>),
      log_r = lg @ [\<lparr>type_e = ''empty'', start_e = 2, end_e = 2, context_e = ctx\<rparr>]\<rparr>"
  by (simp add: pv_unfold chapter_A_at)


lemma run_B:
  "processVerses chapter_B [0, 1, 2] ctx lg =
     \<lparr>verses_r = [0, 1, 2], fixed_r = True,
      heap_r = chapter_B(1 := (verse_of 2 ''B'')\<lparr>endNumber := Some 4\<rparr>),
      log_r = lg @ [\<lparr>type_e = ''missing'', start_e = 3, end_e = 4, context_e = ctx\<rparr>]\<rparr>"
  by (simp add: pv_unfold chapter_B_at)

lemma run_lead:
  "processVerses chapter_lead [0, 1] ctx lg =
     \<lparr>verses_r = [1], fixed_r = False, heap_r = chapter_lead, log_r = lg\<rparr>"
  by (simp add: pv_unfold chapter_lead_at)


lemma trace_both:
  "merge_trace ctx [0, 1] (pv_init chapter_both lg) = [(0, 3), (0, 4)]"
  by (simp add: merges_def pv_init_def expected_def chapter_both_at
      empty_text_verse_of number_verse_of lastVerse_pv_step expectedNumber_pv_step
      number_pv_step empty_text_pv_step js_add1_safe js_sub1_safe safe_def)

lemma trace_back:
  "merge_trace ctx [0, 1, 2] (pv_init chapter_back lg) = [(0, 2), (0, 3), (0, 2)]"
  by (simp add: merges_def pv_init_def expected_def chapter_back_at
      empty_text_verse_of number_verse_of lastVerse_pv_step expectedNumber_pv_step
      number_pv_step empty_text_pv_step js_add1_safe js_sub1_safe safe_def)

lemma chapter_big_at:
  "chapter_big 0 = verse_of 1 ''A''" "chapter_big (Suc 0) = verse_of 9007199254740992 ''''"
  "chapter_big 2 = verse_of 9007199254740994 ''''"
  by (simp_all add: chapter_big_def store_of_def)


lemma js_small: "js_add1 1 = 2"
  by (simp add: js_add1_safe safe_def)

lemma trace_big:
  "merge_trace ctx [0, 1, 2] (pv_init chapter_big lg) =
     [(0, 9007199254740991), (0, 9007199254740992), (0, 9007199254740992),
      (0, 9007199254740994)]"
  by (simp add: merges_def pv_init_def expected_def chapter_big_at
      empty_text_verse_of number_verse_of lastVerse_pv_step expectedNumber_pv_step
      number_pv_step empty_text_pv_step js_small js_add1_big js_sub1_big)



lemma run_back:
  "processVerses chapter_back [0, 1, 2] ctx lg =
     \<lparr>verses_r = [0], fixed_r = True,
      heap_r = chapter_back(0 := (verse_of 1 ''A'')\<lparr>endNumber := Some 2\<rparr>),
      log_r = lg @
        [\<lparr>type_e = ''missing'', start_e = 2, end_e = 2, context_e = ctx\<rparr>,
         \<lparr>type_e = ''empty'', start_e = 3, end_e = 3, context_e = ctx\<rparr>,
         \<lparr>type_e = ''empty'', start_e = 2, end_e = 2, context_e = ctx\<rparr>]\<rparr>"
  by (simp add: pv_unfold chapter_back_at)

section \<open>Properties of processVerses\<close>

lemma quiet_pv_step:
  assumes "verseLog (pv_step ctx a s) = verseLog s"
  shows "fixed (pv_step ctx a s) = fixed s" and "heap (pv_step ctx a s) = heap s"
    and "lastVerse s = None \<or> \<not> empty_text (heap s a)"
  using assms
  by (auto simp add: verseLog_pv_step fixed_pv_step heap_pv_step merges_def
      split: option.splits if_splits)

lemma quiet_pv_loop:
  "verseLog (pv_loop ctx as s) = verseLog s \<Longrightarrow>
   fixed (pv_loop ctx as s) = fixed s \<and> heap (pv_loop ctx as s) = heap s \<and>
   result (pv_loop ctx as s) =
     result s @
     (case lastVerse s of None \<Rightarrow> dropWhile (\<lambda>a. empty_text (heap s a)) as | Some l \<Rightarrow> as)"
proof (induction as arbitrary: s)
  case Nil
  show ?case by (simp split: option.split)
next
  case (Cons a as)
  let ?s = "pv_step ctx a s"
  obtain xs where xs: "verseLog ?s = verseLog s @ xs"
    using verseLog_pv_loop_grows [of ctx "[a]" s] by auto
  obtain ys where ys: "verseLog (pv_loop ctx as ?s) = verseLog ?s @ ys"
    using verseLog_pv_loop_grows by blast
  from Cons.prems xs ys have quiet: "verseLog ?s = verseLog s" "verseLog (pv_loop ctx as ?s) = verseLog ?s"
    by simp_all
  note step = quiet_pv_step [OF quiet(1)]
  note rest = Cons.IH [OF quiet(2)]
  show ?case
  proof (cases "empty_text (heap s a)")
    case True
    with step(3) have "lastVerse s = None" by simp
    with True rest step show ?thesis
      by (simp add: result_pv_step lastVerse_pv_step)
  next
    case False
    with rest step show ?thesis
      by (simp add: result_pv_step lastVerse_pv_step split: option.split)
  qed
qed

text \<open>
  C1 (amended). On every chapter for which \<^verbatim>\<open>processVerses\<close> pushes no entry to the log, it
  returns \<^verbatim>\<open>fixed = false\<close>, leaves every verse object as it was, and returns the input
  sequence without its leading verses of empty text.
\<close>

theorem zero_defects_identity:
  assumes "log_r (processVerses h vs ctx lg) = lg"
  shows "fixed_r (processVerses h vs ctx lg) = False \<and>
         heap_r (processVerses h vs ctx lg) = h \<and>
         verses_r (processVerses h vs ctx lg) = dropWhile (\<lambda>a. empty_text (h a)) vs"
proof -
  from assms have "verseLog (pv_loop ctx vs (pv_init h lg)) = verseLog (pv_init h lg)"
    by (simp add: processVerses_def Let_def pv_init_def)
  from quiet_pv_loop [OF this] show ?thesis
    by (simp add: processVerses_def Let_def pv_init_def)
qed

theorem zero_defects_identity_witness:
  "log_r (processVerses chapter_lead [0, 1] ''Genesis 1'' []) = [] \<and>
   fixed_r (processVerses chapter_lead [0, 1] ''Genesis 1'' []) = False \<and>
   heap_r (processVerses chapter_lead [0, 1] ''Genesis 1'' []) = chapter_lead \<and>
   verses_r (processVerses chapter_lead [0, 1] ''Genesis 1'' []) =
     dropWhile (\<lambda>a. empty_text (chapter_lead a)) [0, 1]"
proof -
  have quiet: "log_r (processVerses chapter_lead [0, 1] ''Genesis 1'' []) = []"
    using run_lead [of "''Genesis 1''" "[]"] by simp
  from zero_defects_identity [OF quiet] quiet show ?thesis
    by simp
qed

text \<open>
  C1 as stated fails: on the chapter \<^verbatim>\<open>[{4," "},{5,"B"}]\<close> no entry is pushed and
  \<^verbatim>\<open>fixed\<close> is false, yet the returned sequence holds the second verse only.
\<close>

theorem zero_defects_identity_counterexample:
  "log_r (processVerses chapter_lead [0, 1] ''Genesis 1'' []) = [] \<and>
   fixed_r (processVerses chapter_lead [0, 1] ''Genesis 1'' []) = False \<and>
   verses_r (processVerses chapter_lead [0, 1] ''Genesis 1'' []) \<noteq> [0, 1]"
  using run_lead [of "''Genesis 1''" "[]"] by simp

lemma merges_bounds:
  assumes "w \<in> set (merges a s)" and "safe (number (heap s a))"
  shows "snd w \<le> number (heap s a)"
    and "expected a s \<le> number (heap s a) \<Longrightarrow> expected a s \<le> snd w"
  using assms by (auto simp add: merges_def js_sub1_safe split: option.splits if_splits)

lemma merges_sorted:
  "safe (number (heap s a)) \<Longrightarrow> sorted_wrt (<) (map snd (merges a s))"
  by (simp add: merges_def js_sub1_safe split: option.split)

lemma merge_trace_sorted:
  assumes "sorted_wrt (<) (map (\<lambda>a. number (heap s a)) as)"
    and "\<And>a. a \<in> set as \<Longrightarrow> safe (number (heap s a))"
    and "\<And>e a. expectedNumber s = Some e \<Longrightarrow> a \<in> set as \<Longrightarrow> e \<le> number (heap s a)"
  shows "sorted_wrt (<) (map snd (merge_trace ctx as s)) \<and>
         (\<forall>e. expectedNumber s = Some e \<longrightarrow> (\<forall>w \<in> set (merge_trace ctx as s). e \<le> snd w))"
  using assms
proof (induction as arbitrary: s)
  case Nil
  show ?case by simp
next
  case (Cons a as)
  let ?s = "pv_step ctx a s"
  have safe_a: "safe (number (heap s a))"
    using Cons.prems(2) by simp
  have exp: "expected a s \<le> number (heap s a)"
    using Cons.prems(3) [of _ a] by (simp add: expected_def split: option.split)
  have later: "number (heap s a) + 1 \<le> number (heap s b)" if "b \<in> set as" for b
    using Cons.prems(1) that by fastforce
  have "sorted_wrt (<) (map (\<lambda>a. number (heap ?s a)) as)"
    using Cons.prems(1) by (simp add: number_pv_step)
  moreover have "safe (number (heap ?s b))" if "b \<in> set as" for b
    using Cons.prems(2) that by (simp add: number_pv_step)
  moreover have "e \<le> number (heap ?s b)" if "expectedNumber ?s = Some e" "b \<in> set as" for e b
    using that later safe_a by (simp add: expectedNumber_pv_step number_pv_step js_add1_safe)
  ultimately have IH: "sorted_wrt (<) (map snd (merge_trace ctx as ?s))"
    "\<And>w. w \<in> set (merge_trace ctx as ?s) \<Longrightarrow> number (heap s a) + 1 \<le> snd w"
    using Cons.IH [of ?s] safe_a by (simp_all add: expectedNumber_pv_step js_add1_safe)
  have "snd w < snd w'" if "w \<in> set (merges a s)" "w' \<in> set (merge_trace ctx as ?s)" for w w'
    using merges_bounds(1) [OF that(1) safe_a] IH(2) [OF that(2)] by simp
  then have "sorted_wrt (<) (map snd (merge_trace ctx (a # as) s))"
    using merges_sorted [OF safe_a] IH(1) by (simp add: sorted_wrt_append)
  moreover have "e \<le> snd w" if "expectedNumber s = Some e" "w \<in> set (merge_trace ctx (a # as) s)" for e w
  proof -
    from that(1) have e: "expected a s = e" by (simp add: expected_def)
    from that(2) consider "w \<in> set (merges a s)" | "w \<in> set (merge_trace ctx as ?s)" by auto
    then show ?thesis
    proof cases
      case 1
      from merges_bounds(2) [OF 1 safe_a exp] e show ?thesis by simp
    next
      case 2
      from IH(2) [OF 2] exp e show ?thesis by simp
    qed
  qed
  ultimately show ?case by blast
qed

text \<open>
  C2 (amended). In one run of \<^verbatim>\<open>processVerses\<close> over a sequence whose verse numbers are
  strictly increasing safe integers (of magnitude below \<open>2 ^ 53\<close>), of two assignments to
  \<^verbatim>\<open>endNumber\<close> of the same retained verse the later one assigns the strictly greater value.
  The assignments are those of \<open>merge_trace\<close>: carried out in order on the store given, they
  yield the store returned.
\<close>

theorem endNumber_monotone:
  assumes "sorted_wrt (<) (map (\<lambda>a. number (h a)) vs)"
    and "list_all (\<lambda>a. safe (number (h a))) vs"
    and "i < j" and "j < length (merge_trace ctx vs (pv_init h lg))"
    and "fst (merge_trace ctx vs (pv_init h lg) ! i) = fst (merge_trace ctx vs (pv_init h lg) ! j)"
  shows "snd (merge_trace ctx vs (pv_init h lg) ! i) < snd (merge_trace ctx vs (pv_init h lg) ! j) \<and>
         heap_r (processVerses h vs ctx lg) =
           foldl assign_endNumber h (merge_trace ctx vs (pv_init h lg))"
proof -
  have "heap_r (processVerses h vs ctx lg) =
      foldl assign_endNumber h (merge_trace ctx vs (pv_init h lg))"
    using heap_pv_loop [of ctx vs "pv_init h lg"]
    by (simp add: processVerses_def pv_init_def Let_def)
  moreover
  have "sorted_wrt (<) (map snd (merge_trace ctx vs (pv_init h lg)))"
    using merge_trace_sorted [of "pv_init h lg" vs ctx] assms(1,2)
    by (simp add: pv_init_def list_all_iff)
  with assms(3,4) have "snd (merge_trace ctx vs (pv_init h lg) ! i) <
      snd (merge_trace ctx vs (pv_init h lg) ! j)"
    by (simp add: sorted_wrt_iff_nth_less)
  ultimately show ?thesis
    by blast
qed

theorem endNumber_monotone_witness:
  "sorted_wrt (<) (map (\<lambda>a. number (chapter_both a)) [0, 1]) \<and>
   list_all (\<lambda>a. safe (number (chapter_both a))) [0, 1] \<and>
   (0::nat) < 1 \<and>
   1 < length (merge_trace ''Genesis 1'' [0, 1] (pv_init chapter_both [])) \<and>
   fst (merge_trace ''Genesis 1'' [0, 1] (pv_init chapter_both []) ! 0) =
   fst (merge_trace ''Genesis 1'' [0, 1] (pv_init chapter_both []) ! 1) \<and>
   snd (merge_trace ''Genesis 1'' [0, 1] (pv_init chapter_both []) ! 0) <
   snd (merge_trace ''Genesis 1'' [0, 1] (pv_init chapter_both []) ! 1)"
proof -
  let ?t = "merge_trace ''Genesis 1'' [0, 1] (pv_init chapter_both [])"
  have t: "?t = [(0, 3), (0, 4)]"
    using trace_both [of "''Genesis 1''" "[]"] by simp
  have s: "sorted_wrt (<) (map (\<lambda>a. number (chapter_both a)) [0, 1])"
    by (simp add: chapter_both_at number_verse_of)
  have b: "list_all (\<lambda>a. safe (number (chapter_both a))) [0, 1]"
    by (simp add: chapter_both_at number_verse_of safe_def)
  have i: "(0::nat) < 1" by simp
  have j: "1 < length ?t" unfolding t by simp
  have f: "fst (?t ! 0) = fst (?t ! 1)" unfolding t by simp
  from endNumber_monotone [OF s b i j f] s b i j f show ?thesis
    by blast
qed

text \<open>
  C2 as stated fails in two ways. When the numbers are not increasing: on
  \<^verbatim>\<open>[{1,"A"},{3,""},{2,""}]\<close> the first verse is assigned 2, then 3, then 2 again, and ends
  with \<^verbatim>\<open>endNumber\<close> 2. When they are increasing but beyond \<open>2 ^ 53\<close>, where \<^verbatim>\<open>number - 1\<close> is
  rounded: on \<^verbatim>\<open>[{1,"A"},{9007199254740992,""},{9007199254740994,""}]\<close> the first verse is
  assigned 9007199254740992 twice in a row.
\<close>

theorem endNumber_monotone_counterexample:
  "merge_trace ''Genesis 1'' [0, 1, 2] (pv_init chapter_back []) = [(0, 2), (0, 3), (0, 2)] \<and>
   endNumber (heap_r (processVerses chapter_back [0, 1, 2] ''Genesis 1'' []) 0) = Some 2 \<and>
   sorted_wrt (<) (map (\<lambda>a. number (chapter_big a)) [0, 1, 2]) \<and>
   merge_trace ''Genesis 1'' [0, 1, 2] (pv_init chapter_big []) =
     [(0, 9007199254740991), (0, 9007199254740992), (0, 9007199254740992),
      (0, 9007199254740994)]"
  using trace_back [of "''Genesis 1''" "[]"] run_back [of "''Genesis 1''" "[]"]
    trace_big [of "''Genesis 1''" "[]"]
  by (simp add: chapter_big_at number_verse_of)




text \<open>
  C4. When a verse of empty text arrives while \<^verbatim>\<open>lastVerse\<close> refers to a retained verse, the
  iteration sets that verse's \<^verbatim>\<open>endNumber\<close> to the number of the arriving verse, sets
  \<^verbatim>\<open>fixed\<close>, pushes as last entry one of type empty for that single number, and does not
  push the verse to the result, where it does not appear later either. On
  \<^verbatim>\<open>[{1,"In the beginning"},{2,""},{3,"And the earth"}]\<close> the result is verse 1 with
  \<^verbatim>\<open>endNumber\<close> 2 followed by verse 3, and the one entry pushed is empty 2 to 2.
\<close>

theorem empty_absorbed:
  assumes "lastVerse s = Some l" and "empty_text (heap s a)"
  shows "empty_check ctx a s =
           s\<lparr>fixed := True,
             heap := (heap s)(l := (heap s l)\<lparr>endNumber := Some (number (heap s a))\<rparr>),
             verseLog := verseLog s @
               [\<lparr>type_e = ''empty'', start_e = number (heap s a), end_e = number (heap s a),
                 context_e = ctx\<rparr>]\<rparr> \<and>
         endNumber (heap (pv_step ctx a s) l) = Some (number (heap s a)) \<and>
         fixed (pv_step ctx a s) \<and>
         verseLog (pv_step ctx a s) = verseLog (gap_check ctx a (expected a s) s) @
           [\<lparr>type_e = ''empty'', start_e = number (heap s a), end_e = number (heap s a),
             context_e = ctx\<rparr>] \<and>
         result (pv_step ctx a s) = result s \<and>
         lastVerse (pv_step ctx a s) = Some l \<and>
         (a \<notin> set (result s) \<longrightarrow> a \<notin> set (result (pv_loop ctx vs (pv_step ctx a s)))) \<and>
         processVerses chapter_A [0, 1, 2] ctx lg =
           \<lparr>verses_r = [0, 2], fixed_r = True,
            heap_r = chapter_A(0 := (verse_of 1 ''In the beginning'')\<lparr>endNumber := Some 2\<rparr>),
            log_r = lg @ [\<lparr>type_e = ''empty'', start_e = 2, end_e = 2, context_e = ctx\<rparr>]\<rparr>"
proof -
  have "verseLog (pv_step ctx a s) = verseLog (gap_check ctx a (expected a s) s) @
           [\<lparr>type_e = ''empty'', start_e = number (heap s a), end_e = number (heap s a),
             context_e = ctx\<rparr>]"
    using assms by (simp add: verseLog_pv_step gap_check_def)
  with assms run_A [of ctx lg] show ?thesis
    by (simp add: empty_check_eq fixed_pv_step endNumber_pv_step result_pv_step
        lastVerse_pv_step result_pv_loop empty_text_pv_step)
qed

theorem empty_absorbed_witness:
  "lastVerse (pv_step ''Genesis 1'' 0 (pv_init chapter_A [])) = Some 0 \<and>
   empty_text (heap (pv_step ''Genesis 1'' 0 (pv_init chapter_A [])) 1) \<and>
   endNumber (heap (pv_step ''Genesis 1'' 1 (pv_step ''Genesis 1'' 0 (pv_init chapter_A []))) 0)
     = Some 2 \<and>
   1 \<notin> set (result (pv_step ''Genesis 1'' 0 (pv_init chapter_A []))) \<and>
   result (pv_step ''Genesis 1'' 1 (pv_step ''Genesis 1'' 0 (pv_init chapter_A []))) = [0] \<and>
   1 \<notin> set (result (pv_loop ''Genesis 1'' [2]
          (pv_step ''Genesis 1'' 1 (pv_step ''Genesis 1'' 0 (pv_init chapter_A [])))))"
proof -
  let ?s = "pv_step ''Genesis 1'' 0 (pv_init chapter_A [])"
  have l: "lastVerse ?s = Some 0" and t: "empty_text (heap ?s 1)"
    by (simp_all add: step_A chapter_A_at empty_text_verse_of)
  have r: "1 \<notin> set (result ?s)"
    by (simp add: step_A)
  from empty_absorbed [OF l t, of "''Genesis 1''" "[2]" "[]"] l t r show ?thesis
    by (simp add: step_A chapter_A_at number_verse_of)
qed

lemma missing_starts_after_a_verse:
  assumes "lastVerse s \<noteq> None \<Longrightarrow> \<exists>p \<in> P. expectedNumber s = Some (js_add1 (number (heap s p)))"
    and "x \<in> set (drop (length (verseLog s)) (verseLog (pv_loop ctx as s)))"
    and "type_e x = ''missing''"
  shows "\<exists>p \<in> P \<union> set as. start_e x = js_add1 (number (heap s p))"
  using assms
proof (induction as arbitrary: s P)
  case Nil
  then show ?case by simp
next
  case (Cons a as)
  let ?s = "pv_step ctx a s"
  obtain ys where ys: "verseLog (pv_loop ctx as ?s) = verseLog ?s @ ys"
    using verseLog_pv_loop_grows by blast
  from Cons.prems(2) ys
  consider "x \<in> set (drop (length (verseLog s)) (verseLog ?s))"
    | "x \<in> set (drop (length (verseLog ?s)) (verseLog (pv_loop ctx as ?s)))"
    by (auto simp add: verseLog_pv_step)
  then show ?case
  proof cases
    case 1
    with Cons.prems(3) have "lastVerse s \<noteq> None \<and> start_e x = expected a s"
      by (cases "lastVerse s") (auto simp add: verseLog_pv_step split: if_splits)
    with Cons.prems(1) show ?thesis
      by (auto simp add: expected_def)
  next
    case 2
    have "\<exists>p \<in> insert a P. expectedNumber ?s = Some (js_add1 (number (heap ?s p)))"
      by (simp add: expectedNumber_pv_step number_pv_step)
    from Cons.IH [OF this 2 Cons.prems(3)] show ?thesis
      by (auto simp add: number_pv_step)
  qed
qed

text \<open>
  C5. A first verse of empty text is dropped without a trace: the first iteration changes
  \<^verbatim>\<open>expectedNumber\<close> only, and the call returns what it returns on the rest of the chapter.
  A first verse with a number above 1 has no entry pushed for the numbers before it. Both
  are cases of an iteration without a retained verse, which changes neither the log, nor
  \<^verbatim>\<open>fixed\<close>, nor any verse object. Over a whole call, every entry of type missing that
  is pushed starts at \<^verbatim>\<open>number + 1\<close> of a verse of the chapter.
\<close>

theorem leading_defects_ignored:
  "(empty_text (h a) \<longrightarrow>
      pv_step ctx a (pv_init h lg) = (pv_init h lg)\<lparr>expectedNumber := Some (js_add1 (number (h a)))\<rparr> \<and>
      processVerses h (a # vs) ctx lg = processVerses h vs ctx lg) \<and>
   (1 < number (h a) \<longrightarrow>
      verseLog (pv_step ctx a (pv_init h lg)) = lg \<and>
      fixed (pv_step ctx a (pv_init h lg)) = False \<and>
      heap (pv_step ctx a (pv_init h lg)) = h) \<and>
   (lastVerse s = None \<longrightarrow>
      verseLog (pv_step ctx b s) = verseLog s \<and>
      fixed (pv_step ctx b s) = fixed s \<and>
      heap (pv_step ctx b s) = heap s) \<and>
   (x \<in> set (drop (length lg) (log_r (processVerses h ws ctx lg))) \<and> type_e x = ''missing'' \<longrightarrow>
      (\<exists>p \<in> set ws. start_e x = js_add1 (number (h p))))"
proof -
  have none: "lastVerse (pv_init h lg) = None"
    by (simp add: pv_init_def)
  have "processVerses h (a # vs) ctx lg = processVerses h vs ctx lg" if "empty_text (h a)"
  proof -
    let ?e = "Some (js_add1 (number (h a)))"
    have step: "pv_step ctx a (pv_init h lg) = (pv_init h lg)\<lparr>expectedNumber := ?e\<rparr>"
      using pv_step_leading_empty [OF none, of a ctx] that by (simp add: pv_init_def)
    show ?thesis
    proof (cases vs)
      case Nil
      then show ?thesis
        by (simp add: processVerses_def step) (simp add: pv_init_def)
    next
      case (Cons b bs)
      then show ?thesis
        by (simp add: processVerses_def step pv_step_expectedNumber_irrelevant [OF none])
    qed
  qed
  moreover have "empty_text (h a) \<Longrightarrow>
      pv_step ctx a (pv_init h lg) = (pv_init h lg)\<lparr>expectedNumber := Some (js_add1 (number (h a)))\<rparr>"
    using pv_step_leading_empty [OF none, of a ctx] by (simp add: pv_init_def)
  moreover have "\<exists>p \<in> set ws. start_e x = js_add1 (number (h p))"
    if "x \<in> set (drop (length lg) (log_r (processVerses h ws ctx lg)))" "type_e x = ''missing''"
    using missing_starts_after_a_verse [of "pv_init h lg" "{}" x ctx ws] that
    by (simp add: processVerses_def pv_init_def Let_def)
  ultimately show ?thesis
    using pv_step_no_lastVerse [OF none, of ctx a] pv_step_no_lastVerse [of s ctx b]
    by (simp add: pv_init_def)
qed

theorem leading_defects_ignored_witness:
  "empty_text (chapter_lead 0) \<and> 1 < number (chapter_lead 0) \<and>
   processVerses chapter_lead [0, 1] ''Genesis 1'' [] =
     processVerses chapter_lead [1] ''Genesis 1'' [] \<and>
   verseLog (pv_step ''Genesis 1'' 0 (pv_init chapter_lead [])) = [] \<and>
   lastVerse (pv_init chapter_lead []) = None \<and>
   \<lparr>type_e = ''missing'', start_e = 3, end_e = 4, context_e = ''Genesis 1''\<rparr>
     \<in> set (drop (length []) (log_r (processVerses chapter_B [0, 1, 2] ''Genesis 1'' []))) \<and>
   js_add1 (number (chapter_B 1)) = 3"
proof -
  have e: "empty_text (chapter_lead 0)" and n: "1 < number (chapter_lead 0)"
    by (simp_all add: chapter_lead_at empty_text_verse_of number_verse_of)
  have l: "lastVerse (pv_init chapter_lead []) = None"
    by (simp add: pv_init_def)
  have m: "\<lparr>type_e = ''missing'', start_e = 3, end_e = 4, context_e = ''Genesis 1''\<rparr>
     \<in> set (drop (length []) (log_r (processVerses chapter_B [0, 1, 2] ''Genesis 1'' [])))"
    using run_B [of "''Genesis 1''" "[]"] by simp
  from leading_defects_ignored [of chapter_lead 0 "''Genesis 1''" "[]" "[1]"
      "pv_init chapter_lead []" 0
      "\<lparr>type_e = ''missing'', start_e = 3, end_e = 4, context_e = ''Genesis 1''\<rparr>" "[]"]
    leading_defects_ignored [of chapter_B 0 "''Genesis 1''" "[]" "[]" "pv_init chapter_B []" 0
      "\<lparr>type_e = ''missing'', start_e = 3, end_e = 4, context_e = ''Genesis 1''\<rparr>"
      "[0, 1, 2]"]
    e n l m
  show ?thesis
    by (simp add: pv_init_def chapter_B_at number_verse_of js_add1_safe safe_def)
qed

text \<open>
  C8. Every verse of the sequence that \<^verbatim>\<open>processVerses\<close> returns has a text that is present
  and is not empty, also after trimming.
\<close>

theorem output_text_nonempty:
  "a \<in> set (verses_r (processVerses h vs ctx lg)) \<Longrightarrow>
   \<exists>t. text_v (heap_r (processVerses h vs ctx lg) a) = Some t \<and> t \<noteq> [] \<and> trim t \<noteq> []"
proof -
  assume "a \<in> set (verses_r (processVerses h vs ctx lg))"
  then have "\<not> empty_text (h a)"
    by (simp add: verses_processVerses)
  then have "\<not> empty_text (heap_r (processVerses h vs ctx lg) a)"
    by (simp add: empty_text_processVerses)
  then show ?thesis
    by (auto simp: empty_text_def split: option.splits)
qed

theorem output_text_nonempty_witness:
  "2 \<in> set (verses_r (processVerses chapter_A [0, 1, 2] ''Genesis 1'' [])) \<and>
   (\<exists>t. text_v (heap_r (processVerses chapter_A [0, 1, 2] ''Genesis 1'' []) 2) = Some t \<and>
        t \<noteq> [] \<and> trim t \<noteq> [])"
proof -
  have m: "2 \<in> set (verses_r (processVerses chapter_A [0, 1, 2] ''Genesis 1'' []))"
    using run_A [of "''Genesis 1''" "[]"] by simp
  from output_text_nonempty [OF m] m show ?thesis
    by blast
qed




section \<open>Properties of logGroupedErrors\<close>

text \<open>
  Started on a store \<open>h\<close> with an empty \<^verbatim>\<open>grouped\<close>, the loop only appends to the store:
  the objects of \<^verbatim>\<open>grouped\<close> are exactly the ones allocated since, in order, and their
  values are those computed by \<open>group_val\<close> from the values of the input.
\<close>

lemma group_step_refines:
  assumes "a < length h0"
  shows "group_step a \<lparr>store = h0 @ g, grouped = [length h0..<length h0 + length g]\<rparr> =
     \<lparr>store = h0 @ group_val g (h0 ! a),
      grouped = [length h0..<length h0 + length (group_val g (h0 ! a))]\<rparr>"
proof (cases g rule: rev_cases)
  case Nil
  with assms show ?thesis
    by (simp add: group_step_def group_val_def nth_append)
next
  case (snoc g' x)
  have "(h0 @ g' @ [x])[length h0 + length g' := y] = h0 @ g' @ [y]" for y
    by (simp add: list_update_append)
  with snoc assms show ?thesis
    by (simp add: group_step_def group_val_def nth_append Let_def)
qed

lemma group_loop_refines:
  assumes "\<forall>a \<in> set as. a < length h0"
  shows "group_loop as \<lparr>store = h0 @ g, grouped = [length h0..<length h0 + length g]\<rparr> =
     \<lparr>store = h0 @ foldl group_val g (entries h0 as),
      grouped = [length h0..<length h0 + length (foldl group_val g (entries h0 as))]\<rparr>"
  using assms
  by (induction as arbitrary: g) (simp_all add: group_step_refines entries_def)

lemma logGroupedErrors_refines:
  assumes "\<forall>a \<in> set lg. a < length h"
  shows "logGroupedErrors h lg =
     \<lparr>store = h @ foldl group_val [] (entries h lg),
      grouped = [length h..<length h + length (foldl group_val [] (entries h lg))]\<rparr>"
  using group_loop_refines [OF assms, of "[]"] by (simp add: logGroupedErrors_def)

lemma entries_appended: "entries (h @ g) [length h..<length h + length g] = g"
  by (rule nth_equalityI) (simp_all add: entries_def nth_append)

lemma run_log_C:
  "logGroupedErrors log_C [0, 1, 2] =
     \<lparr>store = log_C @
        [\<lparr>type_e = ''empty'', start_e = 5, end_e = 6, context_e = ''Genesis 1''\<rparr>,
         \<lparr>type_e = ''missing'', start_e = 7, end_e = 8, context_e = ''Genesis 1''\<rparr>],
      grouped = [3, 4]\<rparr>"
  by (simp add: logGroupedErrors_def group_step_def log_C_def mergeable_def Let_def
      js_add1_safe safe_def)

text \<open>
  In a list produced by \<open>group_val\<close> no entry can be merged into the one before it, and on
  such a list \<open>group_val\<close> merges nothing.
\<close>

lemma mergeable_end_e: "mergeable x (y\<lparr>end_e := e\<rparr>) = mergeable x y"
  by (simp add: mergeable_def)

lemma stable_group_val:
  assumes "successively (\<lambda>x y. \<not> mergeable x y) g"
  shows "successively (\<lambda>x y. \<not> mergeable x y) (group_val g e)"
proof (cases g rule: rev_cases)
  case Nil
  then show ?thesis by (simp add: group_val_def)
next
  case (snoc g' x)
  with assms show ?thesis
    by (auto simp add: group_val_def successively_append_iff mergeable_end_e)
qed

lemma stable_foldl_group_val:
  "successively (\<lambda>x y. \<not> mergeable x y) g \<Longrightarrow>
   successively (\<lambda>x y. \<not> mergeable x y) (foldl group_val g es)"
  by (induction es arbitrary: g) (simp_all add: stable_group_val)

lemma foldl_group_val_stable:
  "successively (\<lambda>x y. \<not> mergeable x y) (g @ es) \<Longrightarrow> foldl group_val g es = g @ es"
proof (induction es arbitrary: g)
  case Nil
  show ?case by simp
next
  case (Cons e es)
  from Cons.prems have "group_val g e = g @ [e]"
    by (auto simp add: group_val_def successively_append_iff)
  with Cons.IH [of "g @ [e]"] Cons.prems show ?case
    by simp
qed

lemma group_val_idempotent:
  "foldl group_val [] (foldl group_val [] es) = foldl group_val [] es"
  using foldl_group_val_stable [of "[]" "foldl group_val [] es"]
    stable_foldl_group_val [of "[]" es]
  by simp

text \<open>
  C6. Grouping is idempotent: for every array of entries, grouping the array \<^verbatim>\<open>grouped\<close> that
  the loop has produced yields entries equal to those of \<^verbatim>\<open>grouped\<close>, one for one.
\<close>

theorem grouping_idempotent:
  assumes "\<forall>a \<in> set lg. a < length h"
  shows "entries (store (logGroupedErrors (store (logGroupedErrors h lg))
                                          (grouped (logGroupedErrors h lg))))
                 (grouped (logGroupedErrors (store (logGroupedErrors h lg))
                                            (grouped (logGroupedErrors h lg)))) =
         entries (store (logGroupedErrors h lg)) (grouped (logGroupedErrors h lg))"
proof -
  let ?g = "foldl group_val [] (entries h lg)"
  let ?h = "h @ ?g" and ?as = "[length h..<length h + length ?g]"
  have first: "logGroupedErrors h lg = \<lparr>store = ?h, grouped = ?as\<rparr>"
    by (rule logGroupedErrors_refines [OF assms])
  have "\<forall>a \<in> set ?as. a < length ?h"
    by simp
  from logGroupedErrors_refines [OF this]
  have second: "logGroupedErrors ?h ?as =
      \<lparr>store = ?h @ ?g, grouped = [length ?h..<length ?h + length ?g]\<rparr>"
    by (simp only: entries_appended group_val_idempotent)
  show ?thesis
    unfolding first group_state.simps second
    by (simp only: entries_appended)
qed

theorem grouping_idempotent_witness:
  "list_all (\<lambda>a. a < length log_C) [0, 1, 2] \<and>
   entries (store (logGroupedErrors (store (logGroupedErrors log_C [0, 1, 2]))
                                    (grouped (logGroupedErrors log_C [0, 1, 2]))))
           (grouped (logGroupedErrors (store (logGroupedErrors log_C [0, 1, 2]))
                                      (grouped (logGroupedErrors log_C [0, 1, 2])))) =
   [\<lparr>type_e = ''empty'', start_e = 5, end_e = 6, context_e = ''Genesis 1''\<rparr>,
    \<lparr>type_e = ''missing'', start_e = 7, end_e = 8, context_e = ''Genesis 1''\<rparr>]"
proof -
  have v: "\<forall>a \<in> set [0, 1, 2]. a < length log_C"
    by (simp add: log_C_def)
  have "entries (store (logGroupedErrors log_C [0, 1, 2])) (grouped (logGroupedErrors log_C [0, 1, 2])) =
     [\<lparr>type_e = ''empty'', start_e = 5, end_e = 6, context_e = ''Genesis 1''\<rparr>,
      \<lparr>type_e = ''missing'', start_e = 7, end_e = 8, context_e = ''Genesis 1''\<rparr>]"
    using run_log_C by (simp add: entries_def log_C_def)
  with grouping_idempotent [OF v] v show ?thesis
    by simp
qed

text \<open>
  C9. The grouping loop does not change its input: every object that existed before the call,
  so every entry of \<^verbatim>\<open>verseLog\<close>, has the same fields after it.
\<close>

theorem grouping_keeps_input:
  assumes "\<forall>a \<in> set lg. a < length h"
  shows "take (length h) (store (logGroupedErrors h lg)) = h \<and>
         (\<forall>a \<in> set lg. store (logGroupedErrors h lg) ! a = h ! a)"
  using assms by (simp add: logGroupedErrors_refines [OF assms] nth_append)

theorem grouping_keeps_input_witness:
  "list_all (\<lambda>a. a < length log_C) [0, 1, 2] \<and>
   take (length log_C) (store (logGroupedErrors log_C [0, 1, 2])) = log_C \<and>
   store (logGroupedErrors log_C [0, 1, 2]) ! 0 =
     \<lparr>type_e = ''empty'', start_e = 5, end_e = 5, context_e = ''Genesis 1''\<rparr>"
proof -
  have v: "\<forall>a \<in> set [0, 1, 2]. a < length log_C"
    by (simp add: log_C_def)
  from grouping_keeps_input [OF v] v show ?thesis
    by (simp add: log_C_def)
qed

section \<open>Properties of the main loop\<close>

lemma read_fsb:
  assumes "fs p = Some content" and "parse content = Some (JArray [JString ident, inner])"
    and "typeof inner = ''object''" and "inner \<noteq> JNull"
  shows "readBibleFile fs parse p =
     Inr \<lparr>type_w = ''fsb'', id_w = JString ident, data_w = inner\<rparr>"
  using assms by (simp add: readBibleFile_def isFsbStructure_def)

lemma read_json:
  assumes "fs p = Some content" and "parse content = Some (JObject b)"
  shows "readBibleFile fs parse p = Inr \<lparr>type_w = ''json'', id_w = JNull, data_w = JObject b\<rparr>"
  using assms by (simp add: readBibleFile_def isFsbStructure_def)

lemma process_data_object: "\<exists>b'. fst (process_data num_str (JObject b)) = JObject b'"
  by (simp add: process_data_def split: prod.split)

lemma fix_file_read:
  assumes "readBibleFile (files st) parse (Converted, file) = Inr w"
  shows "files (fix_file parse stringify num_str dry_run file st) =
     (if fst (snd (process_data num_str (data_w w))) \<and> \<not> dry_run
      then (files st)((Fixed, ''fixed_'' @ file) \<mapsto>
             stringify (outputData (w\<lparr>data_w := fst (process_data num_str (data_w w))\<rparr>)))
      else files st)"
  using assms by (simp add: fix_file_def writeBibleFile_def split: prod.split)

lemma run_demo:
  "process_data demo_num_str (JObject demo_bible) =
     (JObject demo_fixed, True,
      [\<lparr>type_e = ''empty'', start_e = 2, end_e = 2, context_e = ''Genesis 1''\<rparr>])"
  using run_A [of "''Genesis 1''" "[]", unfolded chapter_A_def]
  by (simp add: process_data_def process_book_def process_chapter_def or_empty_def
      demo_bible_def demo_fixed_def demo_num_str_def Let_def store_of_def numeral_2_eq_2)

text \<open>
  C7. For a file whose document has the form \<^verbatim>\<open>[identifier, inner]\<close>, with a string and an
  object, \<^verbatim>\<open>readBibleFile\<close> returns a wrapper of type fsb with the inner object as data, and
  the body of the main loop runs lines 248-262 on that inner object; the file it writes,
  when the Bible was modified and the run is not a dry run, holds the serialized two-element
  array of the identifier that was read and the processed inner object, and no other file
  changes. For a file whose document is an object, the file written holds the serialized
  processed object, which is an object: no wrapper is added.
\<close>

theorem wrapper_preserved:
  "(files st (Converted, file) = Some content \<and>
    parse content = Some (JArray [JString ident, inner]) \<and>
    typeof inner = ''object'' \<and> inner \<noteq> JNull \<longrightarrow>
      readBibleFile (files st) parse (Converted, file) =
        Inr \<lparr>type_w = ''fsb'', id_w = JString ident, data_w = inner\<rparr> \<and>
      files (fix_file parse stringify num_str dry_run file st) =
        (if fst (snd (process_data num_str inner)) \<and> \<not> dry_run
         then (files st)((Fixed, ''fixed_'' @ file) \<mapsto>
                stringify (JArray [JString ident, fst (process_data num_str inner)]))
         else files st)) \<and>
   (files st (Converted, file) = Some content \<and> parse content = Some raw \<and>
    raw = JObject b \<longrightarrow>
      readBibleFile (files st) parse (Converted, file) =
        Inr \<lparr>type_w = ''json'', id_w = JNull, data_w = raw\<rparr> \<and>
      files (fix_file parse stringify num_str dry_run file st) =
        (if fst (snd (process_data num_str raw)) \<and> \<not> dry_run
         then (files st)((Fixed, ''fixed_'' @ file) \<mapsto>
                stringify (fst (process_data num_str raw)))
         else files st) \<and>
      (\<exists>b'. fst (process_data num_str raw) = JObject b'))"
proof (intro conjI impI)
  assume a: "files st (Converted, file) = Some content \<and>
    parse content = Some (JArray [JString ident, inner]) \<and>
    typeof inner = ''object'' \<and> inner \<noteq> JNull"
  then show r: "readBibleFile (files st) parse (Converted, file) =
      Inr \<lparr>type_w = ''fsb'', id_w = JString ident, data_w = inner\<rparr>"
    by (simp add: read_fsb)
  show "files (fix_file parse stringify num_str dry_run file st) =
      (if fst (snd (process_data num_str inner)) \<and> \<not> dry_run
       then (files st)((Fixed, ''fixed_'' @ file) \<mapsto>
              stringify (JArray [JString ident, fst (process_data num_str inner)]))
       else files st)"
    by (auto simp add: fix_file_read [OF r] outputData_def)
next
  assume a: "files st (Converted, file) = Some content \<and> parse content = Some raw \<and>
    raw = JObject b"
  then show r: "readBibleFile (files st) parse (Converted, file) =
      Inr \<lparr>type_w = ''json'', id_w = JNull, data_w = raw\<rparr>"
    by (simp add: read_json)
  show "files (fix_file parse stringify num_str dry_run file st) =
      (if fst (snd (process_data num_str raw)) \<and> \<not> dry_run
       then (files st)((Fixed, ''fixed_'' @ file) \<mapsto>
              stringify (fst (process_data num_str raw)))
       else files st)"
    by (auto simp add: fix_file_read [OF r] outputData_def)
  show "\<exists>b'. fst (process_data num_str raw) = JObject b'"
    using a process_data_object [of num_str b] by simp
qed

theorem wrapper_preserved_witness:
  "files demo_state (Converted, ''a.fsb'') = Some ''fsb text'' \<and>
   demo_parse ''fsb text'' = Some (JArray [JString ''KJV'', JObject demo_bible]) \<and>
   typeof (JObject demo_bible :: (int, bible) json) = ''object'' \<and>
   (JObject demo_bible :: (int, bible) json) \<noteq> JNull \<and>
   files demo_state (Converted, ''b.json'') = Some ''json text'' \<and>
   demo_parse ''json text'' = Some (JObject demo_bible) \<and>
   process_data demo_num_str (JObject demo_bible :: (int, bible) json) =
     (JObject demo_fixed, True,
      [\<lparr>type_e = ''empty'', start_e = 2, end_e = 2, context_e = ''Genesis 1''\<rparr>]) \<and>
   files (fix_file demo_parse demo_stringify demo_num_str False ''a.fsb'' demo_state) =
     (files demo_state)((Fixed, ''fixed_a.fsb'') \<mapsto>
        demo_stringify (JArray [JString ''KJV'', JObject demo_fixed])) \<and>
   files (fix_file demo_parse demo_stringify demo_num_str False ''b.json'' demo_state) =
     (files demo_state)((Fixed, ''fixed_b.json'') \<mapsto> demo_stringify (JObject demo_fixed))"
proof -
  have a: "files demo_state (Converted, ''a.fsb'') = Some ''fsb text''"
    and b: "files demo_state (Converted, ''b.json'') = Some ''json text''"
    by (simp_all add: demo_state_def)
  have c: "demo_parse ''fsb text'' = Some (JArray [JString ''KJV'', JObject demo_bible])"
    and d: "demo_parse ''json text'' = Some (JObject demo_bible)"
    by (simp_all add: demo_parse_def)
  have e: "typeof (JObject demo_bible :: (int, bible) json) = ''object''"
    "(JObject demo_bible :: (int, bible) json) \<noteq> JNull"
    by simp_all
  have p: "process_data demo_num_str (JObject demo_bible :: (int, bible) json) =
     (JObject demo_fixed, True,
      [\<lparr>type_e = ''empty'', start_e = 2, end_e = 2, context_e = ''Genesis 1''\<rparr>])"
    by (rule run_demo)
  have one: "files (fix_file demo_parse demo_stringify demo_num_str False ''a.fsb'' demo_state) =
     (files demo_state)((Fixed, ''fixed_a.fsb'') \<mapsto>
        demo_stringify (JArray [JString ''KJV'', JObject demo_fixed]))"
  proof -
    from wrapper_preserved [of demo_state "''a.fsb''" "''fsb text''" demo_parse "''KJV''"
        "JObject demo_bible" demo_stringify demo_num_str False "JObject demo_bible" demo_bible] a c e
    have "files (fix_file demo_parse demo_stringify demo_num_str False ''a.fsb'' demo_state) =
        (if fst (snd (process_data demo_num_str (JObject demo_bible :: (int, bible) json))) \<and>
            \<not> False
         then (files demo_state)((Fixed, ''fixed_'' @ ''a.fsb'') \<mapsto>
                demo_stringify (JArray [JString ''KJV'',
                  fst (process_data demo_num_str (JObject demo_bible))]))
         else files demo_state)"
      by blast
    then show ?thesis
      by (simp add: p)
  qed
  have two: "files (fix_file demo_parse demo_stringify demo_num_str False ''b.json'' demo_state) =
     (files demo_state)((Fixed, ''fixed_b.json'') \<mapsto> demo_stringify (JObject demo_fixed))"
  proof -
    from wrapper_preserved [of demo_state "''b.json''" "''json text''" demo_parse "''KJV''"
        "JObject demo_bible" demo_stringify demo_num_str False "JObject demo_bible" demo_bible] b d
    have "files (fix_file demo_parse demo_stringify demo_num_str False ''b.json'' demo_state) =
        (if fst (snd (process_data demo_num_str (JObject demo_bible :: (int, bible) json))) \<and>
            \<not> False
         then (files demo_state)((Fixed, ''fixed_'' @ ''b.json'') \<mapsto>
                demo_stringify (fst (process_data demo_num_str (JObject demo_bible))))
         else files demo_state)"
      by blast
    then show ?thesis
      by (simp add: p)
  qed
  from a b c d e p one two show ?thesis
    by blast
qed

end
